theory Spec2Isabelle
  imports Complex_Main "HOL-Library.Word"
begin

section \<open>Monotonic search (\<open>src/lib/functional.cpp\<close>)\<close>

text \<open>
  The search routines receive the profile as a pointer and its length as a separate
  argument. The profile is a list here; a read is \<open>None\<close> where the C++ code would
  read outside the array (undefined behaviour there), and the searches propagate it.
\<close>

definition array_read :: "'a list \<Rightarrow> nat \<Rightarrow> 'a option" where
  "array_read array i = (if i < length array then Some (array ! i) else None)"

text \<open>
  \<open>search_sorted\<close> takes \<open>size_t size\<close> and hands it to a parameter \<open>const int N\<close>:
  the value is reduced modulo \<open>2 ^ 32\<close> and read as two's complement.
\<close>

definition size_t_to_int :: "nat \<Rightarrow> int" where
  "size_t_to_int n = sint (word_of_nat n :: 32 word)"

text \<open>
  The loops of \<open>lower_bound\<close> and \<open>upper_bound\<close>, with the state \<open>(len, idx)\<close>.
  \<open>len\<close> is an \<open>int\<close>, \<open>idx\<close> a \<open>size_t\<close> that only grows, by at most \<open>N - 1\<close> in total.
  The comparator's \<open>bool\<close> result is promoted to 0 or 1 and multiplied by \<open>half\<close>.
\<close>

function lower_bound_loop ::
  "'a list \<Rightarrow> 'a \<Rightarrow> ('a \<Rightarrow> 'a \<Rightarrow> bool) \<Rightarrow> int \<Rightarrow> nat \<Rightarrow> nat option" where
  "lower_bound_loop array v cmp len idx =
     (if len > 1 then
        (let half = len div 2 in
         case array_read array (nat (int idx + half - 1)) of
           None \<Rightarrow> None
         | Some a \<Rightarrow>
             lower_bound_loop array v cmp (len - half)
               (idx + nat (of_bool (cmp a v) * half)))
      else Some idx)"
  by pat_completeness auto
termination
  by (relation "measure (\<lambda>(array, v, cmp, len, idx). nat len)") auto

function upper_bound_loop ::
  "'a list \<Rightarrow> 'a \<Rightarrow> ('a \<Rightarrow> 'a \<Rightarrow> bool) \<Rightarrow> int \<Rightarrow> nat \<Rightarrow> nat option" where
  "upper_bound_loop array v cmp len idx =
     (if len > 1 then
        (let half = len div 2 in
         case array_read array (nat (int idx + half - 1)) of
           None \<Rightarrow> None
         | Some a \<Rightarrow>
             upper_bound_loop array v cmp (len - half)
               (idx + nat (of_bool (\<not> cmp v a) * half)))
      else Some idx)"
  by pat_completeness auto
termination
  by (relation "measure (\<lambda>(array, v, cmp, len, idx). nat len)") auto

declare lower_bound_loop.simps [simp del] upper_bound_loop.simps [simp del]

definition lower_bound ::
  "'a list \<Rightarrow> int \<Rightarrow> 'a \<Rightarrow> ('a \<Rightarrow> 'a \<Rightarrow> bool) \<Rightarrow> nat option" where
  "lower_bound array N v cmp = lower_bound_loop array v cmp N 0"

definition upper_bound ::
  "'a list \<Rightarrow> int \<Rightarrow> 'a \<Rightarrow> ('a \<Rightarrow> 'a \<Rightarrow> bool) \<Rightarrow> nat option" where
  "upper_bound array N v cmp = upper_bound_loop array v cmp N 0"

text \<open>
  \<open>std::greater_equal()\<close> and \<open>std::less_equal()\<close> are \<open>a >= b\<close> and \<open>a <= b\<close> of the
  element type. The element type is any type with an order relation; no law of the
  relation is assumed, so the IEEE comparison (false on NaN) is covered.
\<close>

definition search_sorted :: "('a::ord) list \<Rightarrow> 'a \<Rightarrow> nat \<Rightarrow> bool \<Rightarrow> nat option" where
  "search_sorted x v sz inverted =
     (if inverted then lower_bound x (size_t_to_int sz) v (\<lambda>a b. a \<ge> b)
      else upper_bound x (size_t_to_int sz) v (\<lambda>a b. a \<le> b))"

text \<open>
  \<open>interpolate_z\<close> reads \<open>xp[i]\<close> and \<open>fp[i]\<close> at the index that \<open>lower_bound\<close> returns,
  with no test of \<open>i\<close> against \<open>size\<close>.
\<close>

definition linear_interpolate ::
  "('a::{plus,minus,times,inverse,abs,ord}) \<Rightarrow> 'a \<Rightarrow> 'a \<Rightarrow> 'a \<Rightarrow> 'a \<Rightarrow> 'a" where
  "linear_interpolate x x0 x1 y0 y1 = y0 + (x - x0) * (y1 - y0) / (x1 - x0)"

definition interpolate_z ::
  "nat \<Rightarrow> ('a::{plus,minus,times,inverse,abs,ord}) \<Rightarrow> 'a list \<Rightarrow> 'a list \<Rightarrow> 'a option" where
  "interpolate_z sz x xp fp =
     (case lower_bound xp (size_t_to_int sz) x (\<lambda>a b. a \<ge> b) of
        None \<Rightarrow> None
      | Some i \<Rightarrow>
          if i = 0 then array_read fp 0
          else
            (case (array_read xp (i - 1), array_read xp i, array_read fp (i - 1), array_read fp i) of
               (Some x0, Some x1, Some y0, Some y1) \<Rightarrow> Some (linear_interpolate x x0 x1 y0 y1)
             | _ \<Rightarrow> None))"

section \<open>Floating-point values\<close>

text \<open>
  Every numeric function of the library is a template over one floating type \<open>T\<close>
  (\<open>float\<close> or \<open>double\<close>). The functions below are polymorphic in that type. The
  operators \<open>+\<close>, \<open>-\<close>, \<open>*\<close>, \<open>/\<close>, \<open>fabs\<close>, \<open><\<close> and \<open><=\<close> are those of the type
  (type classes without any law: rounding, overflow and NaN are whatever the type
  says), and the rest of \<open><cmath>\<close> that the code calls is the record \<open>fmath\<close>:
  \<^item> \<open>lit\<close>: the value of a literal or \<open>constexpr double\<close> constant in the type;
  \<^item> \<open>nan\<close>, \<open>isnan\<close>: \<open>quiet_NaN()\<close> (\<open>NAN\<close>) and \<open>std::isnan\<close>;
  \<^item> \<open>nonzero\<close>: the truth value of a floating in a condition, \<open>if (x)\<close>;
  \<^item> \<open>fexp\<close>, \<open>flog\<close>, \<open>fpow\<close>, \<open>fceil\<close>: \<open>exp\<close>, \<open>log\<close>, \<open>pow\<close>, \<open>ceil\<close>;
  \<^item> \<open>to_size_t\<close>, \<open>of_size_t\<close>: the casts \<open>(size_t)x\<close> and \<open>(T)N\<close>.
  A theorem stated for every \<open>fmath\<close> holds for IEEE arithmetic in particular.
\<close>

record 'a fmath =
  lit :: "real \<Rightarrow> 'a"
  nan :: 'a
  isnan :: "'a \<Rightarrow> bool"
  nonzero :: "'a \<Rightarrow> bool"
  fexp :: "'a \<Rightarrow> 'a"
  flog :: "'a \<Rightarrow> 'a"
  fpow :: "'a \<Rightarrow> 'a \<Rightarrow> 'a"
  fceil :: "'a \<Rightarrow> 'a"
  to_size_t :: "'a \<Rightarrow> nat"
  of_size_t :: "nat \<Rightarrow> 'a"

subsection \<open>An instance with exact arithmetic\<close>

text \<open>
  To run the definitions on concrete inputs: the reals with one NaN, every operation
  exact. A result that IEEE arithmetic gives as an infinity (division of a non-zero
  value by zero, \<open>log 0\<close>) is NaN here; no evaluation below meets such an operation.
\<close>

datatype fval = NaN | Fin real

instantiation fval :: "{plus, minus, times, inverse, abs, ord}"
begin

fun plus_fval :: "fval \<Rightarrow> fval \<Rightarrow> fval" where
  "plus_fval (Fin a) (Fin b) = Fin (a + b)"
| "plus_fval _ _ = NaN"

fun minus_fval :: "fval \<Rightarrow> fval \<Rightarrow> fval" where
  "minus_fval (Fin a) (Fin b) = Fin (a - b)"
| "minus_fval _ _ = NaN"

fun times_fval :: "fval \<Rightarrow> fval \<Rightarrow> fval" where
  "times_fval (Fin a) (Fin b) = Fin (a * b)"
| "times_fval _ _ = NaN"

fun divide_fval :: "fval \<Rightarrow> fval \<Rightarrow> fval" where
  "divide_fval (Fin a) (Fin b) = (if b = 0 then NaN else Fin (a / b))"
| "divide_fval _ _ = NaN"

fun inverse_fval :: "fval \<Rightarrow> fval" where
  "inverse_fval (Fin b) = (if b = 0 then NaN else Fin (1 / b))"
| "inverse_fval NaN = NaN"

fun abs_fval :: "fval \<Rightarrow> fval" where
  "abs_fval (Fin a) = Fin \<bar>a\<bar>"
| "abs_fval NaN = NaN"

fun less_eq_fval :: "fval \<Rightarrow> fval \<Rightarrow> bool" where
  "less_eq_fval (Fin a) (Fin b) = (a \<le> b)"
| "less_eq_fval _ _ = False"

fun less_fval :: "fval \<Rightarrow> fval \<Rightarrow> bool" where
  "less_fval (Fin a) (Fin b) = (a < b)"
| "less_fval _ _ = False"

instance ..

end

fun nonzero_fval :: "fval \<Rightarrow> bool" where
  "nonzero_fval (Fin a) = (a \<noteq> 0)"
| "nonzero_fval NaN = True"

fun exp_fval :: "fval \<Rightarrow> fval" where
  "exp_fval (Fin a) = Fin (exp a)"
| "exp_fval NaN = NaN"

fun log_fval :: "fval \<Rightarrow> fval" where
  "log_fval (Fin a) = (if 0 < a then Fin (ln a) else NaN)"
| "log_fval NaN = NaN"

text \<open>
  \<open>pow\<close> as C defines it: \<open>pow(1, y)\<close> and \<open>pow(x, 0)\<close> are 1 even for a NaN
  argument; a negative base needs an integral exponent.
\<close>

fun pow_fval :: "fval \<Rightarrow> fval \<Rightarrow> fval" where
  "pow_fval (Fin a) (Fin b) =
     (if a = 1 \<or> b = 0 then Fin 1
      else if 0 < a then Fin (a powr b)
      else if b = of_int \<lfloor>b\<rfloor> then (if a = 0 \<and> b < 0 then NaN else Fin (power_int a \<lfloor>b\<rfloor>))
      else if a = 0 \<and> 0 < b then Fin 0
      else NaN)"
| "pow_fval (Fin a) NaN = (if a = 1 then Fin 1 else NaN)"
| "pow_fval NaN (Fin b) = (if b = 0 then Fin 1 else NaN)"
| "pow_fval NaN NaN = NaN"

fun ceil_fval :: "fval \<Rightarrow> fval" where
  "ceil_fval (Fin a) = Fin (of_int \<lceil>a\<rceil>)"
| "ceil_fval NaN = NaN"

fun to_size_t_fval :: "fval \<Rightarrow> nat" where
  "to_size_t_fval (Fin a) = nat \<lfloor>a\<rfloor>"
| "to_size_t_fval NaN = 0"

definition exact :: "fval fmath" where
  "exact = \<lparr> lit = Fin, nan = NaN, isnan = (\<lambda>x. x = NaN), nonzero = nonzero_fval,
             fexp = exp_fval, flog = log_fval, fpow = pow_fval, fceil = ceil_fval,
             to_size_t = to_size_t_fval, of_size_t = (\<lambda>n. Fin (real n)) \<rparr>"



subsection \<open>Rounded arithmetic\<close>



section \<open>Formula library (namespace \<open>nzt\<close>)\<close>

definition T0 :: real where "T0 = 273.15"
definition E0 :: real where "E0 = 611.21"
definition Cpd :: real where "Cpd = 1004.6662184201462"
definition Rd :: real where "Rd = 287.04749097718457"
definition Rv :: real where "Rv = 461.52311572606084"
definition Lv :: real where "Lv = 2501000.0"
definition P0 :: real where "P0 = 100000.0"

definition epsilon :: "('a::{plus,minus,times,inverse,abs,ord}) fmath \<Rightarrow> 'a" where
  "epsilon M = lit M Rd / lit M Rv"

definition mixing_ratio ::
  "('a::{plus,minus,times,inverse,abs,ord}) fmath \<Rightarrow> 'a \<Rightarrow> 'a \<Rightarrow> 'a" where
  "mixing_ratio M partial_press total_press =
     epsilon M * partial_press / (total_press - partial_press)"

definition saturation_vapor_pressure ::
  "('a::{plus,minus,times,inverse,abs,ord}) fmath \<Rightarrow> 'a \<Rightarrow> 'a" where
  "saturation_vapor_pressure M temperature =
     lit M E0 * fexp M (lit M 17.67 * (temperature - lit M T0) / (temperature - lit M 29.65))"

definition saturation_mixing_ratio ::
  "('a::{plus,minus,times,inverse,abs,ord}) fmath \<Rightarrow> 'a \<Rightarrow> 'a \<Rightarrow> 'a" where
  "saturation_mixing_ratio M pressure temperature =
     (let e = saturation_vapor_pressure M temperature
      in epsilon M * e / (pressure - e))"

definition vapor_pressure ::
  "('a::{plus,minus,times,inverse,abs,ord}) fmath \<Rightarrow> 'a \<Rightarrow> 'a \<Rightarrow> 'a" where
  "vapor_pressure M pressure mixing_ratio' =
     pressure * mixing_ratio' / (epsilon M + mixing_ratio')"

text \<open>The two overloads of \<open>dewpoint\<close>: from a vapor pressure, and from pressure and mixing ratio.\<close>

definition dewpoint :: "('a::{plus,minus,times,inverse,abs,ord}) fmath \<Rightarrow> 'a \<Rightarrow> 'a" where
  "dewpoint M vapor_pressure' =
     (let ln = flog M (vapor_pressure' / lit M E0)
      in lit M T0 + lit M 243.5 * ln / (lit M 17.67 - ln))"

definition dewpoint2 ::
  "('a::{plus,minus,times,inverse,abs,ord}) fmath \<Rightarrow> 'a \<Rightarrow> 'a \<Rightarrow> 'a" where
  "dewpoint2 M pressure mixing_ratio' = dewpoint M (vapor_pressure M pressure mixing_ratio')"

definition exner_function ::
  "('a::{plus,minus,times,inverse,abs,ord}) fmath \<Rightarrow> 'a \<Rightarrow> 'a \<Rightarrow> 'a" where
  "exner_function M pressure reference_pressure =
     fpow M (pressure / reference_pressure) (lit M Rd / lit M Cpd)"

text \<open>\<open>potential_temperature\<close> calls \<open>exner_function\<close> with its default second argument \<open>P0\<close>.\<close>

definition potential_temperature ::
  "('a::{plus,minus,times,inverse,abs,ord}) fmath \<Rightarrow> 'a \<Rightarrow> 'a \<Rightarrow> 'a" where
  "potential_temperature M pressure temperature =
     temperature / exner_function M pressure (lit M P0)"

definition equivalent_potential_temperature ::
  "('a::{plus,minus,times,inverse,abs,ord}) fmath \<Rightarrow> 'a \<Rightarrow> 'a \<Rightarrow> 'a \<Rightarrow> 'a" where
  "equivalent_potential_temperature M pressure temperature dewpt =
     (let r = saturation_mixing_ratio M pressure dewpt;
          e = saturation_vapor_pressure M dewpt;
          t_l = lit M 56 + lit M 1.0 /
                  (lit M 1.0 / (dewpt - lit M 56) + flog M (temperature / dewpt) / lit M 800.0);
          th_l = potential_temperature M (pressure - e) temperature *
                   fpow M (temperature / t_l) (lit M 0.28 * r)
      in th_l * fexp M (r * (lit M 1 + lit M 0.448 * r) * (lit M 3036.0 / t_l - lit M 1.78)))"

definition wet_bulb_potential_temperature ::
  "('a::{plus,minus,times,inverse,abs,ord}) fmath \<Rightarrow> 'a \<Rightarrow> 'a \<Rightarrow> 'a \<Rightarrow> 'a" where
  "wet_bulb_potential_temperature M pressure temperature dewpt =
     (let theta_e = equivalent_potential_temperature M pressure temperature dewpt
      in if theta_e \<le> lit M 173.15 then theta_e
         else
          (let x = theta_e / lit M T0;
               x2 = x * x;
               x3 = x2 * x;
               x4 = x2 * x2;
               a = lit M 7.101574 - lit M 20.68208 * x + lit M 16.11182 * x2
                   + lit M 2.574631 * x3 - lit M 5.205688 * x4;
               b = lit M 1 - lit M 3.552497 * x + lit M 3.781782 * x2
                   - lit M 0.6899655 * x3 - lit M 0.5929340 * x4;
               theta_w = theta_e - fexp M (a / b)
           in theta_w))"

section \<open>Numerical methods\<close>

subsection \<open>\<open>rk2\<close>\<close>

text \<open>The \<open>for\<close> loop of \<open>rk2\<close>, with the state \<open>(i, x0, y)\<close>.\<close>

function rk2_loop ::
  "('a::{plus,minus,times,inverse,abs,ord}) fmath \<Rightarrow> ('a \<Rightarrow> 'a \<Rightarrow> 'a) \<Rightarrow> 'a \<Rightarrow> nat \<Rightarrow>
     nat \<Rightarrow> 'a \<Rightarrow> 'a \<Rightarrow> 'a" where
  "rk2_loop M fn delta N i x0 y =
     (if i < N then
        (let k1 = delta * fn x0 y;
             y' = y + delta * fn (x0 + delta * lit M 0.5) (y + k1 * lit M 0.5);
             x0' = x0 + delta
         in rk2_loop M fn delta N (i + 1) x0' y')
      else y)"
  by pat_completeness auto
termination
  by (relation "measure (\<lambda>(M, fn, delta, N, i, x0, y). N - i)") auto

definition rk2 ::
  "('a::{plus,minus,times,inverse,abs,ord}) fmath \<Rightarrow> ('a \<Rightarrow> 'a \<Rightarrow> 'a) \<Rightarrow>
     'a \<Rightarrow> 'a \<Rightarrow> 'a \<Rightarrow> 'a \<Rightarrow> 'a" where
  "rk2 M fn x0 x1 y step =
     (let delta = x1 - x0;
          abs_delta = \<bar>delta\<bar>
      in if abs_delta > step then
           (let N = to_size_t M (fceil M (abs_delta / step));
                delta' = delta / of_size_t M N
            in rk2_loop M fn delta' N 0 x0 y)
         else rk2_loop M fn delta 1 0 x0 y)"

declare rk2_loop.simps [simp del]

text \<open>
  The integrator as the specification words it: one midpoint substep of size \<open>\<delta>\<close> maps
  \<open>(x, y)\<close> to \<open>(x + \<delta>, y + \<delta>\<cdot>fn(x + \<delta>/2, y + k1/2))\<close> with \<open>k1 = \<delta>\<cdot>fn(x, y)\<close>. The code
  halves by multiplying with \<open>0.5\<close>.
\<close>

definition midpoint_substep ::
  "('a::{plus,minus,times,inverse,abs,ord}) fmath \<Rightarrow> ('a \<Rightarrow> 'a \<Rightarrow> 'a) \<Rightarrow> 'a \<Rightarrow>
     'a \<times> 'a \<Rightarrow> 'a \<times> 'a" where
  "midpoint_substep M fn \<delta> s =
     (case s of (x, y) \<Rightarrow>
        (let k1 = \<delta> * fn x y
         in (x + \<delta>, y + \<delta> * fn (x + \<delta> / lit M 2) (y + k1 / lit M 2))))"

subsection \<open>\<open>fixed_point\<close>\<close>

text \<open>
  One pass through the body of the \<open>for\<close> loop, up to the convergence test: the new
  \<open>p2\<close> and \<open>err\<close>, from the current \<open>p0\<close>. \<open>g\<close> is the update function with its fixed
  arguments bound, \<open>fn(_, x0, x1, x2)\<close>.
\<close>

definition fixed_point_body ::
  "('a::{plus,minus,times,inverse,abs,ord}) fmath \<Rightarrow> ('a \<Rightarrow> 'a) \<Rightarrow> 'a \<Rightarrow> 'a \<times> 'a" where
  "fixed_point_body M g p0 =
     (let p1 = g p0;
          p2 = g p1;
          delta = p2 - lit M 2.0 * p1 + p0;
          p2 = (if nonzero M delta then p0 - fpow M (p1 - p0) (lit M 2) / delta else p2);
          err = p2;
          err = (if nonzero M p0 then \<bar>(p2 - p0) / p0\<bar> else err)
      in (p2, err))"

text \<open>
  The loop, with the state \<open>(i, p0)\<close>. The result is the returned value together with
  the number of passes through the body that were made.
\<close>

function fixed_point_loop ::
  "('a::{plus,minus,times,inverse,abs,ord}) fmath \<Rightarrow> ('a \<Rightarrow> 'a) \<Rightarrow> 'a \<Rightarrow> nat \<Rightarrow>
     nat \<Rightarrow> 'a \<Rightarrow> nat \<times> 'a" where
  "fixed_point_loop M g eps max_iters i p0 =
     (if i < max_iters then
        (case fixed_point_body M g p0 of (p2, err) \<Rightarrow>
           if err < eps then (i + 1, p2)
           else fixed_point_loop M g eps max_iters (i + 1) p2)
      else (i, nan M))"
  by pat_completeness auto
termination
  by (relation "measure (\<lambda>(M, g, eps, max_iters, i, p0). max_iters - i)") auto

definition fixed_point ::
  "('a::{plus,minus,times,inverse,abs,ord}) fmath \<Rightarrow> ('a \<Rightarrow> 'a \<Rightarrow> 'a \<Rightarrow> 'a \<Rightarrow> 'a) \<Rightarrow>
     'a \<Rightarrow> 'a \<Rightarrow> 'a \<Rightarrow> 'a \<Rightarrow> nat \<Rightarrow> 'a" where
  "fixed_point M fn x0 x1 x2 eps max_iters =
     snd (fixed_point_loop M (\<lambda>p. fn p x0 x1 x2) eps max_iters 0 x0)"

text \<open>
  The copy of \<open>fixed_point\<close> in \<open>src/lib/functional.cpp\<close> has the same body; it takes
  \<open>max_iters\<close> and \<open>eps\<close> first and passes a pack of fixed arguments on, here one value
  \<open>args\<close>. The copy of \<open>rk2\<close> there is \<open>rk2\<close> above, token for token.
\<close>

definition libthermo_fixed_point ::
  "('a::{plus,minus,times,inverse,abs,ord}) fmath \<Rightarrow> ('a \<Rightarrow> 'a \<Rightarrow> 'b \<Rightarrow> 'a) \<Rightarrow>
     nat \<Rightarrow> 'a \<Rightarrow> 'a \<Rightarrow> 'b \<Rightarrow> 'a" where
  "libthermo_fixed_point M fn max_iters eps x0 args =
     snd (fixed_point_loop M (\<lambda>p. fn p x0 args) eps max_iters 0 x0)"

declare fixed_point_loop.simps [simp del]

text \<open>
  The estimate \<open>p0\<close> with which pass \<open>k\<close> of the loop starts, when no earlier pass has
  returned: each pass hands its \<open>p2\<close> to the next.
\<close>

definition fixed_point_estimate ::
  "('a::{plus,minus,times,inverse,abs,ord}) fmath \<Rightarrow> ('a \<Rightarrow> 'a) \<Rightarrow> 'a \<Rightarrow> nat \<Rightarrow> 'a" where
  "fixed_point_estimate M g x0 k = ((\<lambda>p. fst (fixed_point_body M g p)) ^^ k) x0"

text \<open>
  The same loop for an update function with an effect. \<open>g\<close> takes the state \<open>s\<close> of
  whatever it touches and returns it changed; the loop threads the state through the
  calls in the order in which the code makes them, two in each pass, and returns it with
  the result. Nothing but a call of \<open>g\<close> changes the state, so the state that comes back
  records the calls that were made. \<open>fixed_point_next\<close> is the estimate and the state
  that a pass hands to the next one, \<open>fixed_point_err\<close> the \<open>err\<close> that it tests.
  \<open>counted g\<close> is the pure function \<open>g\<close> with a counter of its calls for a state.
\<close>

definition fixed_point_pass ::
  "('a::{plus,minus,times,inverse,abs,ord}) fmath \<Rightarrow> ('a \<Rightarrow> 's \<Rightarrow> 'a \<times> 's) \<Rightarrow> 'a \<Rightarrow> 's \<Rightarrow>
     ('a \<times> 'a) \<times> 's" where
  "fixed_point_pass M g p0 s =
     (case g p0 s of (p1, s1) \<Rightarrow>
      case g p1 s1 of (p2, s2) \<Rightarrow>
        (let delta = p2 - lit M 2.0 * p1 + p0;
             p2 = (if nonzero M delta then p0 - fpow M (p1 - p0) (lit M 2) / delta else p2);
             err = p2;
             err = (if nonzero M p0 then \<bar>(p2 - p0) / p0\<bar> else err)
         in ((p2, err), s2)))"

function fixed_point_run ::
  "('a::{plus,minus,times,inverse,abs,ord}) fmath \<Rightarrow> ('a \<Rightarrow> 's \<Rightarrow> 'a \<times> 's) \<Rightarrow> 'a \<Rightarrow> nat \<Rightarrow>
     nat \<Rightarrow> 'a \<Rightarrow> 's \<Rightarrow> 'a \<times> 's" where
  "fixed_point_run M g eps max_iters i p0 s =
     (if i < max_iters then
        (case fixed_point_pass M g p0 s of ((p2, err), s') \<Rightarrow>
           if err < eps then (p2, s')
           else fixed_point_run M g eps max_iters (i + 1) p2 s')
      else (nan M, s))"
  by pat_completeness auto
termination
  by (relation "measure (\<lambda>(M, g, eps, max_iters, i, p0, s). max_iters - i)") auto

declare fixed_point_run.simps [simp del]

definition fixed_point_next ::
  "('a::{plus,minus,times,inverse,abs,ord}) fmath \<Rightarrow> ('a \<Rightarrow> 's \<Rightarrow> 'a \<times> 's) \<Rightarrow> 'a \<times> 's \<Rightarrow> 'a \<times> 's" where
  "fixed_point_next M g c =
     (case c of (p0, s) \<Rightarrow> case fixed_point_pass M g p0 s of ((p2, err), s') \<Rightarrow> (p2, s'))"

definition fixed_point_err ::
  "('a::{plus,minus,times,inverse,abs,ord}) fmath \<Rightarrow> ('a \<Rightarrow> 's \<Rightarrow> 'a \<times> 's) \<Rightarrow> 'a \<times> 's \<Rightarrow> 'a" where
  "fixed_point_err M g c =
     (case c of (p0, s) \<Rightarrow> case fixed_point_pass M g p0 s of ((p2, err), s') \<Rightarrow> err)"

definition counted :: "('a \<Rightarrow> 'a) \<Rightarrow> 'a \<Rightarrow> nat \<Rightarrow> 'a \<times> nat" where
  "counted g p n = (g p, n + 1)"

section \<open>Moist adiabatic processes\<close>

definition moist_lapse_solver ::
  "('a::{plus,minus,times,inverse,abs,ord}) fmath \<Rightarrow> 'a \<Rightarrow> 'a \<Rightarrow> 'a" where
  "moist_lapse_solver M pressure temperature =
     (let r = saturation_mixing_ratio M pressure temperature
      in (lit M Rd * temperature + lit M Lv * r) /
         (lit M Cpd + (lit M Lv * lit M Lv * r * epsilon M /
                        (lit M Rd * temperature * temperature))) / pressure)"

definition moist_lapse ::
  "('a::{plus,minus,times,inverse,abs,ord}) fmath \<Rightarrow> 'a \<Rightarrow> 'a \<Rightarrow> 'a \<Rightarrow> 'a \<Rightarrow> 'a" where
  "moist_lapse M pressure next_pressure temperature step =
     rk2 M (moist_lapse_solver M) pressure next_pressure temperature step"

definition lcl_solver ::
  "('a::{plus,minus,times,inverse,abs,ord}) fmath \<Rightarrow> 'a \<Rightarrow> 'a \<Rightarrow> 'a \<Rightarrow> 'a \<Rightarrow> 'a" where
  "lcl_solver M pressure reference_pressure temperature mixing_ratio' =
     (let td = dewpoint2 M pressure mixing_ratio';
          p = reference_pressure *
                fpow M (td / temperature) (lit M 1.0 / (lit M Rd / lit M Cpd))
      in if isnan M p then pressure else p)"

definition lcl_pressure ::
  "('a::{plus,minus,times,inverse,abs,ord}) fmath \<Rightarrow> 'a \<Rightarrow> 'a \<Rightarrow> 'a \<Rightarrow> 'a \<Rightarrow> nat \<Rightarrow> 'a" where
  "lcl_pressure M pressure temperature dewpt eps max_iters =
     (let r = mixing_ratio M (saturation_vapor_pressure M dewpt) pressure
      in fixed_point M (lcl_solver M) pressure temperature r eps max_iters)"

definition lcl ::
  "('a::{plus,minus,times,inverse,abs,ord}) fmath \<Rightarrow> 'a \<Rightarrow> 'a \<Rightarrow> 'a \<Rightarrow> 'a \<Rightarrow> nat \<Rightarrow> 'a \<times> 'a" where
  "lcl M pressure temperature dewpt eps max_iters =
     (let r = mixing_ratio M (saturation_vapor_pressure M dewpt) pressure;
          lcl_p = fixed_point M (lcl_solver M) pressure temperature r eps max_iters;
          lcl_t = dewpoint2 M lcl_p r
      in (lcl_p, lcl_t))"

definition wet_bulb_temperature ::
  "('a::{plus,minus,times,inverse,abs,ord}) fmath \<Rightarrow> 'a \<Rightarrow> 'a \<Rightarrow> 'a \<Rightarrow> 'a \<Rightarrow> 'a \<Rightarrow> nat \<Rightarrow> 'a" where
  "wet_bulb_temperature M pressure temperature dewpt eps step max_iters =
     (case lcl M pressure temperature dewpt eps max_iters of
        (lcl_p, lcl_t) \<Rightarrow> moist_lapse M lcl_p pressure lcl_t step)"

section \<open>Elementwise operations (\<open>src/nzthermo/_ufunc.pyx\<close>)\<close>

text \<open>
  The kernels that the ufunc machinery applies at each index. \<open>C.f\<close> is \<open>nzt::f\<close>. The
  ufunc signature has no keyword arguments, so each kernel fixes them as locals. The
  kernel of \<open>lcl\<close> widens both results to \<open>double\<close>, which changes no value.
\<close>

definition ufunc_wet_bulb_temperature ::
  "('a::{plus,minus,times,inverse,abs,ord}) fmath \<Rightarrow> 'a \<Rightarrow> 'a \<Rightarrow> 'a \<Rightarrow> 'a" where
  "ufunc_wet_bulb_temperature M pressure temperature dewpt =
     (let max_iter = 50;
          eps = lit M 0.1;
          step = lit M 1000.0
      in wet_bulb_temperature M pressure temperature dewpt eps step max_iter)"

definition ufunc_lcl_pressure ::
  "('a::{plus,minus,times,inverse,abs,ord}) fmath \<Rightarrow> 'a \<Rightarrow> 'a \<Rightarrow> 'a \<Rightarrow> 'a" where
  "ufunc_lcl_pressure M pressure temperature dewpt =
     (let max_iter = 50;
          eps = lit M 0.1
      in lcl_pressure M pressure temperature dewpt eps max_iter)"

definition ufunc_lcl ::
  "('a::{plus,minus,times,inverse,abs,ord}) fmath \<Rightarrow> 'a \<Rightarrow> 'a \<Rightarrow> 'a \<Rightarrow> 'a \<times> 'a" where
  "ufunc_lcl M pressure temperature dewpt =
     (let max_iter = 50;
          eps = lit M 0.1
      in lcl M pressure temperature dewpt eps max_iter)"

section \<open>Evaluation in the exact instance\<close>

lemma exact_simps [simp]:
  "lit exact = Fin" "nan exact = NaN" "isnan exact x = (x = NaN)" "nonzero exact = nonzero_fval"
  "fexp exact = exp_fval" "flog exact = log_fval" "fpow exact = pow_fval"
  "fceil exact = ceil_fval" "to_size_t exact = to_size_t_fval" "of_size_t exact n = Fin (real n)"
  by (simp_all add: exact_def)

section \<open>Properties of the monotonic search\<close>

lemma size_t_to_int_le: "size_t_to_int n \<le> int n"
proof -
  let ?w = "word_of_nat n :: 32 word"
  have "(0::int) \<le> uint ?w" by simp
  then have "(- 2147483648::int) \<le> uint ?w" by arith
  then have "sint ?w \<le> uint ?w"
    by (simp add: sint_uint signed_take_bit_int_less_eq_self_iff)
  also have "uint ?w = int (take_bit 32 n)"
    by (simp add: unsigned_of_nat)
  also have "\<dots> \<le> int n"
    by (simp add: take_bit_nat_less_eq_self)
  finally show ?thesis by (simp add: size_t_to_int_def)
qed

lemma size_t_to_int_small: "n < 2 ^ 31 \<Longrightarrow> size_t_to_int n = int n"
proof -
  assume n: "n < 2 ^ 31"
  let ?w = "word_of_nat n :: 32 word"
  have "take_bit 32 n = n" using n by (simp add: take_bit_nat_eq_self_iff)
  then have u: "uint ?w = int n" by (simp add: unsigned_of_nat)
  have "int n < 2 ^ 31" using n by (metis of_nat_less_iff of_nat_numeral of_nat_power)
  then have "signed_take_bit 31 (int n) = int n"
    by (simp add: signed_take_bit_int_eq_self_iff)
  then show ?thesis by (simp add: size_t_to_int_def sint_uint u)
qed

lemma upper_bound_loop_exit: "len \<le> 1 \<Longrightarrow> upper_bound_loop xs v cmp len idx = Some idx"
  by (simp add: upper_bound_loop.simps)

lemma upper_bound_loop_step:
  assumes "1 < len" "int idx + len \<le> int (length xs)"
  shows "upper_bound_loop xs v cmp len idx =
         upper_bound_loop xs v cmp (len - len div 2)
           (idx + nat (of_bool (\<not> cmp v (xs ! nat (int idx + len div 2 - 1))) * (len div 2)))"
proof -
  have "nat (int idx + len div 2 - 1) < length xs" using assms by auto
  then have "array_read xs (nat (int idx + len div 2 - 1)) = Some (xs ! nat (int idx + len div 2 - 1))"
    by (simp add: array_read_def)
  with assms(1) show ?thesis
    by (subst upper_bound_loop.simps) (simp add: Let_def)
qed

lemma upper_bound_loop_first:
  assumes mono: "\<And>i j. i \<le> j \<Longrightarrow> j < length xs \<Longrightarrow> cmp v (xs ! i) \<Longrightarrow> cmp v (xs ! j)"
  shows "1 \<le> len \<Longrightarrow> int idx + len \<le> int (length xs) \<Longrightarrow>
   \<exists>r. upper_bound_loop xs v cmp len idx = Some r \<and> idx \<le> r \<and> int r \<le> int idx + len - 1 \<and>
       (\<forall>j. idx \<le> j \<and> j < r \<longrightarrow> \<not> cmp v (xs ! j)) \<and>
       (cmp v (xs ! r) \<or> int r = int idx + len - 1)"
proof (induction "nat len" arbitrary: len idx rule: less_induct)
  case (less len)
  show ?case
  proof (cases "len > 1")
    case False
    with less.prems show ?thesis by (auto simp: upper_bound_loop_exit)
  next
    case True
    define half where "half = len div 2"
    have h: "1 \<le> half" "half \<le> len - half" "1 \<le> len - half" "len - half < len"
      using True by (auto simp: half_def)
    define m where "m = nat (int idx + half - 1)"
    have m: "m < length xs" "idx \<le> m" "int m = int idx + half - 1" using h less.prems by (auto simp: m_def)
    define idx' where "idx' = idx + nat (of_bool (\<not> cmp v (xs ! m)) * half)"
    have eq: "upper_bound_loop xs v cmp len idx = upper_bound_loop xs v cmp (len - half) idx'"
      using upper_bound_loop_step[OF True less.prems(2), of v cmp]
      by (simp add: half_def m_def idx'_def)
    have bnd: "int idx' + (len - half) \<le> int (length xs)"
      using h less.prems by (auto simp: idx'_def)
    have "0 \<le> len - half" using h by simp
    have "nat (len - half) < nat len" using h by simp
    from less.hyps[OF this h(3) bnd]
    obtain r where r: "upper_bound_loop xs v cmp (len - half) idx' = Some r" "idx' \<le> r"
      "int r \<le> int idx' + (len - half) - 1"
      "\<forall>j. idx' \<le> j \<and> j < r \<longrightarrow> \<not> cmp v (xs ! j)"
      "cmp v (xs ! r) \<or> int r = int idx' + (len - half) - 1"
      by blast
    show ?thesis
    proof (cases "cmp v (xs ! m)")
      case True
      then have i: "idx' = idx" by (simp add: idx'_def)
      have "cmp v (xs ! r) \<or> int r = int idx + len - 1"
      proof (cases "cmp v (xs ! r)")
        case False
        with r(5) i have "int r = int idx + (len - half) - 1" by simp
        with h m have "m \<le> r" "r < length xs" using less.prems by auto
        from mono[OF this True] False show ?thesis by simp
      qed simp
      with r i h show ?thesis unfolding eq by auto
    next
      case False
      then have i: "idx' = idx + nat half" by (simp add: idx'_def)
      have "\<not> cmp v (xs ! j)" if "idx \<le> j" "j < r" for j
      proof (cases "idx' \<le> j")
        case True with r(4) that show ?thesis by simp
      next
        case F: False
        then have "j \<le> m" using i m h by auto
        from mono[OF this m(1)] False show ?thesis by blast
      qed
      with r i h show ?thesis unfolding eq by auto
    qed
  qed
qed

lemma upper_bound_loop_range:
  "1 \<le> len \<Longrightarrow> int idx + len \<le> int (length xs) \<Longrightarrow>
   \<exists>r. upper_bound_loop xs v cmp len idx = Some r \<and> idx \<le> r \<and> int r \<le> int idx + len - 1"
proof (induction "nat len" arbitrary: len idx rule: less_induct)
  case less
  show ?case
  proof (cases "len > 1")
    case False
    with less.prems show ?thesis by (auto simp: upper_bound_loop_exit)
  next
    case True
    define half where "half = len div 2"
    have h: "1 \<le> half" "1 \<le> len - half" "nat (len - half) < nat len"
      using True by (auto simp: half_def)
    define idx' where
      "idx' = idx + nat (of_bool (\<not> cmp v (xs ! nat (int idx + half - 1))) * half)"
    have i: "idx \<le> idx'" "int idx' \<le> int idx + half"
      using h by (auto simp: idx'_def)
    have eq: "upper_bound_loop xs v cmp len idx = upper_bound_loop xs v cmp (len - half) idx'"
      using upper_bound_loop_step[OF True less.prems(2), of v cmp]
      by (simp add: half_def idx'_def)
    have "int idx' + (len - half) \<le> int (length xs)"
      using i less.prems by simp
    from less.hyps[OF h(3) h(2) this] i show ?thesis
      unfolding eq by auto
  qed
qed

text \<open>
  The reads of \<open>interpolate_z\<close> stay inside both arrays for every \<open>x\<close>, because the index
  it gets is at most \<open>size - 1\<close>; at the index \<open>size\<close> they would leave them.
\<close>

lemma lower_bound_loop_upper:
  "lower_bound_loop xs v cmp len idx = upper_bound_loop xs v (\<lambda>a b. \<not> cmp b a) len idx"
proof (induction xs v cmp len idx rule: lower_bound_loop.induct)
  case (1 array v cmp len idx)
  show ?case
  proof (cases "len > 1")
    case True
    show ?thesis
    proof (cases "array_read array (nat (int idx + len div 2 - 1))")
      case None
      with True show ?thesis
        by (subst lower_bound_loop.simps, subst upper_bound_loop.simps) (simp add: Let_def)
    next
      case (Some a)
      from "1.IH"[OF True refl Some] True Some show ?thesis
        by (subst lower_bound_loop.simps, subst upper_bound_loop.simps) (simp add: Let_def)
    qed
  next
    case False
    then show ?thesis
      by (subst lower_bound_loop.simps, subst upper_bound_loop.simps) simp
  qed
qed

lemma interpolate_z_in_range:
  assumes "1 \<le> n" "length xp = n" "length fp = n"
  shows "\<exists>y. interpolate_z n x xp fp = Some y"
proof -
  have "\<exists>r. lower_bound xp (size_t_to_int n) x (\<lambda>a b. a \<ge> b) = Some r \<and> r \<le> n - 1"
  proof (cases "1 \<le> size_t_to_int n")
    case True
    have "int 0 + size_t_to_int n \<le> int (length xp)"
      using size_t_to_int_le[of n] assms by simp
    from upper_bound_loop_range[OF True this]
    show ?thesis using size_t_to_int_le[of n]
      by (fastforce simp: lower_bound_def lower_bound_loop_upper)
  next
    case False
    then show ?thesis
      by (simp add: lower_bound_def lower_bound_loop_upper upper_bound_loop_exit)
  qed
  then obtain r where "lower_bound xp (size_t_to_int n) x (\<lambda>a b. a \<ge> b) = Some r" "r \<le> n - 1"
    by blast
  with assms show ?thesis
    by (auto simp: interpolate_z_def array_read_def)
qed


text \<open>
  Claim C10. For every array of size \<open>N \<ge> 1\<close> and every searched value,
  \<open>search_sorted\<close> with \<open>inverted = false\<close> reads only inside the array and returns an
  index that is at most \<open>N - 1\<close>: the half-lengths added to the index sum to at most
  \<open>N - 1\<close>, so the array length itself is never returned. No property of the comparison
  is used; the value may be a NaN and the array unsorted.
\<close>

theorem search_sorted_never_past_end:
  assumes "1 \<le> n" "length x = n"
  shows "\<exists>r. search_sorted x v n False = Some r \<and> r \<le> n - 1"
proof (cases "1 \<le> size_t_to_int n")
  case True
  have "int 0 + size_t_to_int n \<le> int (length x)"
    using size_t_to_int_le[of n] assms by simp
  from upper_bound_loop_range[OF True this, of v "\<lambda>a b. a \<le> b"]
  obtain r where "upper_bound_loop x v (\<lambda>a b. a \<le> b) (size_t_to_int n) 0 = Some r"
    "int r \<le> size_t_to_int n - 1" by auto
  with size_t_to_int_le[of n] show ?thesis
    by (auto simp: search_sorted_def upper_bound_def)
next
  case False
  then show ?thesis
    by (simp add: search_sorted_def upper_bound_def upper_bound_loop_exit)
qed

theorem search_sorted_never_past_end_witness:
  "(1::nat) \<le> 3 \<and> length [Fin 10, Fin 20, Fin 30] = 3 \<and>
   (\<exists>r. search_sorted [Fin 10, Fin 20, Fin 30] NaN 3 False = Some r \<and> r \<le> 3 - 1)"
  using search_sorted_never_past_end [of 3 "[Fin 10, Fin 20, Fin 30]" NaN] by simp

lemma search_sorted_ascending:
  fixes xs :: "('a::ord) list" and v :: 'a
  assumes trans: "\<forall>a b. v \<le> a \<longrightarrow> a \<le> b \<longrightarrow> v \<le> b"
    and sorted: "sorted_wrt (\<le>) xs" and ne: "xs \<noteq> []" and small: "length xs < 2 ^ 31"
  shows "\<exists>r. search_sorted xs v (length xs) False = Some r \<and> r < length xs \<and>
      (\<forall>j<r. \<not> v \<le> xs ! j) \<and> (v \<le> xs ! r \<or> r = length xs - 1)"
proof -
  have mono: "v \<le> xs ! j" if "i \<le> j" "j < length xs" "v \<le> xs ! i" for i j
  proof (cases "i = j")
    case False
    with that have "xs ! i \<le> xs ! j"
      using sorted by (simp add: sorted_wrt_iff_nth_less)
    with trans that show ?thesis by blast
  qed (use that in simp)
  have len: "size_t_to_int (length xs) = int (length xs)"
    using small by (rule size_t_to_int_small)
  have one: "1 \<le> int (length xs)" using ne by (cases xs) simp_all
  have "\<exists>r. upper_bound_loop xs v (\<lambda>a b. a \<le> b) (int (length xs)) 0 = Some r \<and> 0 \<le> r \<and>
          int r \<le> int 0 + int (length xs) - 1 \<and>
          (\<forall>j. 0 \<le> j \<and> j < r \<longrightarrow> \<not> v \<le> xs ! j) \<and>
          (v \<le> xs ! r \<or> int r = int 0 + int (length xs) - 1)"
    by (rule upper_bound_loop_first [where cmp = "\<lambda>a b. a \<le> b"]) (use mono one in simp_all)
  then obtain r where r: "upper_bound_loop xs v (\<lambda>a b. a \<le> b) (int (length xs)) 0 = Some r"
    "int r \<le> int (length xs) - 1" "\<forall>j. j < r \<longrightarrow> \<not> v \<le> xs ! j"
    "v \<le> xs ! r \<or> int r = int (length xs) - 1"
    by fastforce
  from r(2,4) ne have "r < length xs" "v \<le> xs ! r \<or> r = length xs - 1"
    by (auto simp: of_nat_diff)
  with r(1,3) show ?thesis
    by (auto simp: search_sorted_def upper_bound_def len)
qed

text \<open>
  Claim C1, as amended. On the ascending profile \<open>[1, 2, 3, 4]\<close> with \<open>inverted = false\<close>
  the search returns 0 for the value 0.5 and 3, the last index, for the value 5. More
  generally, on a non-empty ascending profile of fewer than \<open>2 ^ 31\<close> elements it
  returns an index \<open>r\<close> inside the array: when some element satisfies
  \<open>value \<le> element\<close>, \<open>r\<close> is the first index whose element does (the first element not
  less than the value); when none does, \<open>r\<close> is the last index \<open>N - 1\<close>. The only law of
  the comparison that is used is transitivity, which the IEEE comparison has.
\<close>

theorem search_sorted_first_not_less:
  fixes xs :: "('a::ord) list" and v :: 'a
  shows "search_sorted [Fin 1, Fin 2, Fin 3, Fin 4] (Fin 0.5) 4 False = Some 0 \<and>
         search_sorted [Fin 1, Fin 2, Fin 3, Fin 4] (Fin 5) 4 False = Some 3 \<and>
         ((\<forall>a b. v \<le> a \<longrightarrow> a \<le> b \<longrightarrow> v \<le> b) \<longrightarrow> sorted_wrt (\<le>) xs \<longrightarrow>
          xs \<noteq> [] \<longrightarrow> length xs < 2 ^ 31 \<longrightarrow>
          (\<exists>r. search_sorted xs v (length xs) False = Some r \<and> r < length xs \<and>
               ((\<exists>i<length xs. v \<le> xs ! i) \<longrightarrow> v \<le> xs ! r \<and> (\<forall>j<r. \<not> v \<le> xs ! j)) \<and>
               ((\<forall>i<length xs. \<not> v \<le> xs ! i) \<longrightarrow> r = length xs - 1)))"
proof (intro conjI impI)
  show "search_sorted [Fin 1, Fin 2, Fin 3, Fin 4] (Fin 0.5) 4 False = Some 0"
    by (simp add: search_sorted_def upper_bound_def upper_bound_loop.simps size_t_to_int_def
        array_read_def)
  show "search_sorted [Fin 1, Fin 2, Fin 3, Fin 4] (Fin 5) 4 False = Some 3"
    by (simp add: search_sorted_def upper_bound_def upper_bound_loop.simps size_t_to_int_def
        array_read_def)
next
  assume "\<forall>a b. v \<le> a \<longrightarrow> a \<le> b \<longrightarrow> v \<le> b" "sorted_wrt (\<le>) xs" "xs \<noteq> []"
    "length xs < 2 ^ 31"
  from search_sorted_ascending [OF this]
  obtain r where r: "search_sorted xs v (length xs) False = Some r" "r < length xs"
    "\<forall>j<r. \<not> v \<le> xs ! j" "v \<le> xs ! r \<or> r = length xs - 1"
    by blast
  have "v \<le> xs ! r" if "\<exists>i<length xs. v \<le> xs ! i"
  proof (rule ccontr)
    assume n: "\<not> v \<le> xs ! r"
    with r(4) have last: "r = length xs - 1" by simp
    from that obtain i where i: "i < length xs" "v \<le> xs ! i" by blast
    with last have "i < r \<or> i = r" by auto
    with r(3) n i(2) show False by blast
  qed
  moreover have "r = length xs - 1" if "\<forall>i<length xs. \<not> v \<le> xs ! i"
    using that r(2,4) by blast
  ultimately show "\<exists>r. search_sorted xs v (length xs) False = Some r \<and> r < length xs \<and>
      ((\<exists>i<length xs. v \<le> xs ! i) \<longrightarrow> v \<le> xs ! r \<and> (\<forall>j<r. \<not> v \<le> xs ! j)) \<and>
      ((\<forall>i<length xs. \<not> v \<le> xs ! i) \<longrightarrow> r = length xs - 1)"
    using r(1,2,3) by blast
qed

theorem search_sorted_first_not_less_witness:
  "search_sorted [Fin 1, Fin 2, Fin 3, Fin 4] (Fin 2.5) (length [Fin 1, Fin 2, Fin 3, Fin 4]) False
     = Some 2 \<and>
   search_sorted [Fin 1, Fin 2, Fin 3, Fin 4] (Fin 7) (length [Fin 1, Fin 2, Fin 3, Fin 4]) False
     = Some 3"
proof -
  let ?xs = "[Fin 1, Fin 2, Fin 3, Fin 4]"
  have trans: "\<forall>a b. Fin c \<le> a \<longrightarrow> a \<le> b \<longrightarrow> Fin c \<le> b" for c
  proof (intro allI impI)
    fix a b assume "Fin c \<le> a" "a \<le> b"
    then show "Fin c \<le> b" by (cases a; cases b) simp_all
  qed
  have xs: "sorted_wrt (\<le>) ?xs" "?xs \<noteq> []" "length ?xs < 2 ^ 31" by simp_all
  have some: "\<exists>i<length ?xs. Fin 2.5 \<le> ?xs ! i"
    by (rule exI [of _ 2]) simp
  have none: "\<forall>i<length ?xs. \<not> Fin 7 \<le> ?xs ! i"
    by (simp add: nth_Cons' less_Suc_eq numeral_eq_Suc)
  from xs trans [of "2.5"] some search_sorted_first_not_less [of "Fin 2.5" ?xs]
  obtain r where r: "search_sorted ?xs (Fin 2.5) (length ?xs) False = Some r" "r < length ?xs"
    "Fin 2.5 \<le> ?xs ! r" "\<forall>j<r. \<not> Fin 2.5 \<le> ?xs ! j"
    by blast
  have "r \<noteq> 3" using r(4) by (auto dest: spec [of _ 2])
  moreover have "r \<noteq> 0" using r(3) by (cases "r = 0") simp_all
  moreover have "r \<noteq> 1" using r(3) by (cases "r = 1") simp_all
  ultimately have "r = 2" using r(2) by auto
  with r(1) have first: "search_sorted ?xs (Fin 2.5) (length ?xs) False = Some 2" by simp
  from xs trans [of "7"] none search_sorted_first_not_less [of "Fin 7" ?xs]
  have "search_sorted ?xs (Fin 7) (length ?xs) False = Some (length ?xs - 1)"
    by blast
  with first show ?thesis by simp
qed

theorem search_sorted_past_end_counterexample:
  "search_sorted [Fin 1, Fin 2, Fin 3, Fin 4] (Fin 5) 4 False \<noteq> Some 4"
  by (simp add: search_sorted_def upper_bound_def upper_bound_loop.simps size_t_to_int_def
      array_read_def)

section \<open>Properties of the numerical methods\<close>

text \<open>
  What one pass of \<open>fixed_point\<close> computes and how the loop goes on: \<open>err\<close> is the
  relative error when \<open>p0\<close> is non-zero and \<open>p2\<close> itself when \<open>p0\<close> is zero; the pass
  returns \<open>p2\<close> when \<open>err < eps\<close> and hands \<open>p2\<close> to the next pass otherwise.
\<close>

lemma fixed_point_body_err:
  "snd (fixed_point_body M g p0) =
     (if nonzero M p0 then \<bar>(fst (fixed_point_body M g p0) - p0) / p0\<bar>
      else fst (fixed_point_body M g p0))"
  by (simp add: fixed_point_body_def Let_def)

lemma fixed_point_loop_return:
  "i < max_iters \<Longrightarrow> snd (fixed_point_body M g p0) < eps \<Longrightarrow>
   fixed_point_loop M g eps max_iters i p0 = (i + 1, fst (fixed_point_body M g p0))"
  by (subst fixed_point_loop.simps) (simp add: case_prod_beta)

lemma fixed_point_loop_continue:
  "i < max_iters \<Longrightarrow> \<not> snd (fixed_point_body M g p0) < eps \<Longrightarrow>
   fixed_point_loop M g eps max_iters i p0 =
     fixed_point_loop M g eps max_iters (i + 1) (fst (fixed_point_body M g p0))"
  by (subst fixed_point_loop.simps) (simp add: case_prod_beta)

lemma fixed_point_loop_count:
  "i \<le> max_iters \<Longrightarrow> fst (fixed_point_loop M g eps max_iters i p0) \<le> max_iters"
proof (induction M g eps max_iters i p0 rule: fixed_point_loop.induct)
  case (1 M g eps max_iters i p0)
  show ?case
  proof (cases "i < max_iters")
    case True
    obtain p2 err where b: "fixed_point_body M g p0 = (p2, err)" by (cases "fixed_point_body M g p0")
    show ?thesis
    proof (cases "err < eps")
      case T: True
      with True b show ?thesis by (subst fixed_point_loop.simps) simp
    next
      case False
      with True b "1.IH"[OF True b[symmetric] False] show ?thesis
        by (subst fixed_point_loop.simps) simp
    qed
  next
    case False
    with "1.prems" show ?thesis by (subst fixed_point_loop.simps) simp
  qed
qed

lemma fixed_point_loop_exhaust:
  "i \<le> max_iters \<Longrightarrow>
   (\<And>k. k < max_iters - i \<Longrightarrow>
      \<not> snd (fixed_point_body M g (fixed_point_estimate M g p0 k)) < eps) \<Longrightarrow>
   fixed_point_loop M g eps max_iters i p0 = (max_iters, nan M)"
proof (induction M g eps max_iters i p0 rule: fixed_point_loop.induct)
  case (1 M g eps max_iters i p0)
  show ?case
  proof (cases "i < max_iters")
    case True
    obtain p2 err where b: "fixed_point_body M g p0 = (p2, err)" by (cases "fixed_point_body M g p0")
    have "\<not> snd (fixed_point_body M g (fixed_point_estimate M g p0 0)) < eps"
      using "1.prems"(2)[of 0] True by simp
    then have ne: "\<not> err < eps" by (simp add: fixed_point_estimate_def b)
    have "\<not> snd (fixed_point_body M g (fixed_point_estimate M g p2 k)) < eps"
      if "k < max_iters - (i + 1)" for k
    proof -
      have "fst (fixed_point_body M g p0) = p2" by (simp add: b)
      then have "fixed_point_estimate M g p2 k = fixed_point_estimate M g p0 (Suc k)"
        unfolding fixed_point_estimate_def by (metis funpow_Suc_right o_apply)
      with "1.prems"(2)[of "Suc k"] that show ?thesis by simp
    qed
    with "1.IH"[OF True b[symmetric] ne] True
    have "fixed_point_loop M g eps max_iters (i + 1) p2 = (max_iters, nan M)" by simp
    with True b ne show ?thesis by (subst fixed_point_loop.simps) simp
  next
    case False
    with "1.prems" show ?thesis by (subst fixed_point_loop.simps) simp
  qed
qed

lemma rk2_loop_funpow:
  assumes half: "\<forall>z. z * lit M 0.5 = z / lit M 2"
  shows "i \<le> N \<Longrightarrow>
    rk2_loop M fn delta N i x0 y = snd ((midpoint_substep M fn delta ^^ (N - i)) (x0, y))"
proof (induction "N - i" arbitrary: i x0 y)
  case 0
  then show ?case by (subst rk2_loop.simps) simp
next
  case (Suc n)
  then have lt: "i < N" and n: "n = N - (i + 1)" and le: "i + 1 \<le> N" by simp_all
  define x0' where "x0' = x0 + delta"
  define y' where "y' = y + delta * fn (x0 + delta * lit M 0.5) (y + delta * fn x0 y * lit M 0.5)"
  have sub: "midpoint_substep M fn delta (x0, y) = (x0', y')"
    unfolding midpoint_substep_def x0'_def y'_def Let_def prod.case
    by (simp only: half [rule_format])
  have "rk2_loop M fn delta N i x0 y = rk2_loop M fn delta N (i + 1) x0' y'"
    using lt by (subst rk2_loop.simps) (simp only: Let_def x0'_def y'_def if_True)
  also have "\<dots> = snd ((midpoint_substep M fn delta ^^ (N - (i + 1))) (x0', y'))"
    using Suc.hyps(1) [OF n le] .
  also have "(midpoint_substep M fn delta ^^ (N - (i + 1))) (x0', y') =
      (midpoint_substep M fn delta ^^ (N - i)) (x0, y)"
    unfolding sub [symmetric] Suc.hyps(2) [symmetric] n [symmetric]
    by (simp only: funpow_Suc_right o_apply)
  finally show ?case .
qed

lemma fixed_point_body_incr:
  "fixed_point_body exact (\<lambda>p. p + Fin 1) (Fin a) =
     (Fin (a + 2), if a = 0 then Fin 2 else Fin \<bar>2 / a\<bar>)"
  by (simp add: fixed_point_body_def Let_def)

text \<open>
  The loop with a stateful update function and the pure loop: when the test fails in
  every pass, the state that comes back is the one that \<open>max_iters\<close> passes leave; and
  with a counter for the state, the loop returns what the pure loop returns and has
  called the update function twice for each pass that the pure loop made.
\<close>

lemma fixed_point_run_exhaust:
  "i \<le> max_iters \<Longrightarrow>
   (\<And>k. k < max_iters - i \<Longrightarrow>
      \<not> fixed_point_err M g ((fixed_point_next M g ^^ k) (p0, s)) < eps) \<Longrightarrow>
   fixed_point_run M g eps max_iters i p0 s =
     (nan M, snd ((fixed_point_next M g ^^ (max_iters - i)) (p0, s)))"
proof (induction "max_iters - i" arbitrary: i p0 s)
  case 0
  then show ?case by (subst fixed_point_run.simps) simp
next
  case (Suc n)
  then have lt: "i < max_iters" and n: "n = max_iters - (i + 1)" and le: "i + 1 \<le> max_iters"
    by simp_all
  obtain p2 err s' where b: "fixed_point_pass M g p0 s = ((p2, err), s')"
    by (metis surj_pair)
  then have nx: "fixed_point_next M g (p0, s) = (p2, s')"
    and er: "fixed_point_err M g (p0, s) = err"
    by (simp_all add: fixed_point_next_def fixed_point_err_def)
  have "\<not> fixed_point_err M g ((fixed_point_next M g ^^ 0) (p0, s)) < eps"
    using Suc.prems(2) [of 0] lt by simp
  then have ne: "\<not> err < eps" by (simp add: er)
  have shift: "(fixed_point_next M g ^^ k) (p2, s') = (fixed_point_next M g ^^ Suc k) (p0, s)" for k
    unfolding nx [symmetric] by (simp only: funpow_Suc_right o_apply)
  have "\<not> fixed_point_err M g ((fixed_point_next M g ^^ k) (p2, s')) < eps"
    if "k < max_iters - (i + 1)" for k
    unfolding shift using Suc.prems(2) [of "Suc k"] that by simp
  from Suc.hyps(1) [OF n le this]
  have "fixed_point_run M g eps max_iters (i + 1) p2 s' =
      (nan M, snd ((fixed_point_next M g ^^ (max_iters - (i + 1))) (p2, s')))" by simp
  also have "(fixed_point_next M g ^^ (max_iters - (i + 1))) (p2, s') =
      (fixed_point_next M g ^^ (max_iters - i)) (p0, s)"
    unfolding shift Suc.hyps(2) [symmetric] n [symmetric] ..
  finally show ?case
    using lt b ne by (subst fixed_point_run.simps) simp
qed

lemma fixed_point_pass_counted:
  "fixed_point_pass M (counted g) p0 n = (fixed_point_body M g p0, n + 2)"
  by (simp add: fixed_point_pass_def fixed_point_body_def counted_def Let_def)

lemma fixed_point_loop_count_ge:
  "i \<le> fst (fixed_point_loop M g eps max_iters i p0)"
proof (induction "max_iters - i" arbitrary: i p0)
  case 0
  then show ?case by (subst fixed_point_loop.simps) simp
next
  case (Suc m)
  then have lt: "i < max_iters" and m: "m = max_iters - (i + 1)" by simp_all
  obtain p2 err where b: "fixed_point_body M g p0 = (p2, err)" by (metis surj_pair)
  from Suc.hyps(1) [OF m, of p2] lt b show ?case
    by (subst fixed_point_loop.simps) simp
qed

lemma fixed_point_run_counted:
  "i \<le> max_iters \<Longrightarrow>
   fixed_point_run M (counted g) eps max_iters i p0 n =
     (snd (fixed_point_loop M g eps max_iters i p0),
      n + 2 * (fst (fixed_point_loop M g eps max_iters i p0) - i))"
proof (induction "max_iters - i" arbitrary: i p0 n)
  case 0
  then show ?case
    by (subst fixed_point_run.simps, subst (1 2) fixed_point_loop.simps) simp
next
  case (Suc m)
  then have lt: "i < max_iters" and m: "m = max_iters - (i + 1)" and le: "i + 1 \<le> max_iters"
    by simp_all
  obtain p2 err where b: "fixed_point_body M g p0 = (p2, err)" by (metis surj_pair)
  show ?case
  proof (cases "err < eps")
    case True
    with lt b show ?thesis
      by (subst fixed_point_run.simps, subst (1 2) fixed_point_loop.simps)
        (simp add: fixed_point_pass_counted)
  next
    case False
    have ge: "i + 1 \<le> fst (fixed_point_loop M g eps max_iters (i + 1) p2)"
      by (rule fixed_point_loop_count_ge)
    from Suc.hyps(1) [OF m le, of p2 "n + 2"] lt b False ge show ?thesis
      by (subst fixed_point_run.simps, subst (1 2) fixed_point_loop.simps)
        (simp add: fixed_point_pass_counted)
  qed
qed

text \<open>
  Claim C3. An iteration is one pass through the body of the \<open>for\<close> loop: two calls of
  the update function and one convergence test \<open>err < eps\<close>. For every update function,
  also one with an effect on a state of any type, every starting estimate, \<open>eps\<close> and
  \<open>max_iters\<close>: if the test fails in each of the passes \<open>0, \<dots>, max_iters - 1\<close>, then
  \<open>fixed_point\<close> returns NaN and the state it leaves is the state after exactly
  \<open>max_iters\<close> passes. With a counter of the calls for the state, the loop returns the
  value of \<open>fixed_point\<close>, has made at most \<open>2 * max_iters\<close> calls of the update function
  whatever the test does, and exactly \<open>2 * max_iters\<close> calls, that is \<open>max_iters\<close> passes,
  when the test never succeeds. The function is total: there is no error value in its
  result type, as \<open>noexcept\<close> promises.
\<close>

theorem fixed_point_exhausted:
  fixes M :: "('a::{plus,minus,times,inverse,abs,ord}) fmath"
    and g :: "'a \<Rightarrow> 's \<Rightarrow> 'a \<times> 's" and fn :: "'a \<Rightarrow> 'a \<Rightarrow> 'a \<Rightarrow> 'a \<Rightarrow> 'a"
  shows
    "((\<forall>k<max_iters. \<not> fixed_point_err M g ((fixed_point_next M g ^^ k) (x0, s0)) < eps) \<longrightarrow>
        fixed_point_run M g eps max_iters 0 x0 s0 =
          (nan M, snd ((fixed_point_next M g ^^ max_iters) (x0, s0)))) \<and>
     fst (fixed_point_run M (counted (\<lambda>p. fn p x0 x1 x2)) eps max_iters 0 x0 0) =
        fixed_point M fn x0 x1 x2 eps max_iters \<and>
     snd (fixed_point_run M (counted (\<lambda>p. fn p x0 x1 x2)) eps max_iters 0 x0 0)
        \<le> 2 * max_iters \<and>
     ((\<forall>k<max_iters.
         \<not> snd (fixed_point_body M (\<lambda>p. fn p x0 x1 x2)
                 (fixed_point_estimate M (\<lambda>p. fn p x0 x1 x2) x0 k)) < eps) \<longrightarrow>
        fixed_point M fn x0 x1 x2 eps max_iters = nan M \<and>
        snd (fixed_point_run M (counted (\<lambda>p. fn p x0 x1 x2)) eps max_iters 0 x0 0)
          = 2 * max_iters)"
proof (intro conjI impI)
  assume "\<forall>k<max_iters. \<not> fixed_point_err M g ((fixed_point_next M g ^^ k) (x0, s0)) < eps"
  then show "fixed_point_run M g eps max_iters 0 x0 s0 =
      (nan M, snd ((fixed_point_next M g ^^ max_iters) (x0, s0)))"
    using fixed_point_run_exhaust [of 0 max_iters M g x0 s0 eps] by simp
next
  let ?g = "\<lambda>p. fn p x0 x1 x2"
  have run: "fixed_point_run M (counted ?g) eps max_iters 0 x0 0 =
      (snd (fixed_point_loop M ?g eps max_iters 0 x0),
       2 * fst (fixed_point_loop M ?g eps max_iters 0 x0))"
    using fixed_point_run_counted [of 0 max_iters M ?g eps x0 0] by simp
  show "fst (fixed_point_run M (counted ?g) eps max_iters 0 x0 0) =
      fixed_point M fn x0 x1 x2 eps max_iters"
    by (simp add: run fixed_point_def)
  show "snd (fixed_point_run M (counted ?g) eps max_iters 0 x0 0) \<le> 2 * max_iters"
    using fixed_point_loop_count [of 0 max_iters M ?g eps x0] by (simp add: run)
  assume "\<forall>k<max_iters.
      \<not> snd (fixed_point_body M ?g (fixed_point_estimate M ?g x0 k)) < eps"
  then have l: "fixed_point_loop M ?g eps max_iters 0 x0 = (max_iters, nan M)"
    by (intro fixed_point_loop_exhaust) simp_all
  show "fixed_point M fn x0 x1 x2 eps max_iters = nan M"
    by (simp add: fixed_point_def l)
  show "snd (fixed_point_run M (counted ?g) eps max_iters 0 x0 0) = 2 * max_iters"
    by (simp add: run l)
qed

theorem fixed_point_exhausted_witness:
  "fixed_point_run exact (counted (\<lambda>p. p + Fin 1)) (Fin 0.1) 3 0 (Fin 1) 0 = (NaN, 6) \<and>
   fixed_point exact (\<lambda>p x0 x1 x2. p + Fin 1) (Fin 1) (Fin 0) (Fin 0) (Fin 0.1) 3 = NaN"
proof -
  let ?g = "\<lambda>p. p + Fin 1"
  have nx: "fixed_point_next exact (counted ?g) (Fin a, n) = (Fin (a + 2), n + 2)" for a n
    by (simp add: fixed_point_next_def fixed_point_pass_counted fixed_point_body_incr)
  have er: "fixed_point_err exact (counted ?g) (Fin a, n) =
      (if a = 0 then Fin 2 else Fin \<bar>2 / a\<bar>)" for a n
    by (simp add: fixed_point_err_def fixed_point_pass_counted fixed_point_body_incr)
  have pw: "(fixed_point_next exact (counted ?g) ^^ k) (Fin 1, 0) =
      (Fin (1 + 2 * real k), 2 * k)" for k
    by (induction k) (simp_all add: nx)
  have stateful: "\<not> fixed_point_err exact (counted ?g)
      ((fixed_point_next exact (counted ?g) ^^ k) (Fin 1, 0)) < Fin 0.1" if "k < 3" for k
  proof -
    from that have "k = 0 \<or> k = 1 \<or> k = 2" by auto
    then show ?thesis unfolding pw er by auto
  qed
  have pure: "\<not> snd (fixed_point_body exact ?g (fixed_point_estimate exact ?g (Fin 1) k)) < Fin 0.1"
    if "k < 3" for k
  proof -
    from that have "k = 0 \<or> k = 1 \<or> k = 2" by auto
    then show ?thesis
      by (auto simp: fixed_point_estimate_def fixed_point_body_incr numeral_2_eq_2)
  qed
  note inst = fixed_point_exhausted [where M = exact and g = "counted ?g"
      and fn = "\<lambda>p x0 x1 x2. p + Fin 1" and ?x0.0 = "Fin 1" and ?x1.0 = "Fin 0" and ?x2.0 = "Fin 0"
      and eps = "Fin 0.1" and max_iters = 3 and ?s0.0 = 0]
  from inst stateful have "fixed_point_run exact (counted ?g) (Fin 0.1) 3 0 (Fin 1) 0 =
      (NaN, snd ((fixed_point_next exact (counted ?g) ^^ 3) (Fin 1, 0)))"
    by simp
  then have run: "fixed_point_run exact (counted ?g) (Fin 0.1) 3 0 (Fin 1) 0 = (NaN, 6)"
    unfolding pw by simp
  from inst pure have "fixed_point exact (\<lambda>p x0 x1 x2. p + Fin 1) (Fin 1) (Fin 0) (Fin 0) (Fin 0.1) 3
      = NaN"
    by simp
  with run show ?thesis by simp
qed

text \<open>
  Claim C2, evaluated where the code departs from it. Started at \<open>x0 = 0\<close> with the
  update function \<open>p \<mapsto> p - 1\<close>, the first pass has \<open>p0 = 0\<close>, \<open>p1 = -1\<close>, \<open>p2 = -2\<close> and
  a second difference of 0, so \<open>p2\<close> is not accelerated. \<open>p0\<close> is zero, so \<open>err\<close> keeps the
  value \<open>p2 = -2\<close>: no absolute value is taken on this path. \<open>-2 < 0.1\<close> holds and the
  function returns \<open>-2\<close> in the first pass, although \<open>|p2| = 2\<close> is not below \<open>eps\<close>.
\<close>

theorem fixed_point_zero_estimate_signed_error:
  "fixed_point_body exact (\<lambda>p. p - Fin 1) (Fin 0) = (Fin (- 2), Fin (- 2)) \<and>
   \<not> \<bar>Fin (- 2)\<bar> < Fin 0.1 \<and>
   fixed_point exact (\<lambda>p x0 x1 x2. p - Fin 1) (Fin 0) (Fin 0) (Fin 0) (Fin 0.1) 50 = Fin (- 2)"
  by (simp add: fixed_point_def fixed_point_loop.simps fixed_point_body_def Let_def)

text \<open>
  Claim C4. When \<open>|x1 - x0|\<close> does not exceed \<open>step\<close>, \<open>rk2\<close> takes exactly one midpoint
  substep of size \<open>x1 - x0\<close>; in particular when \<open>|x1 - x0| \<le> step\<close>, for a comparison in
  which \<open>a \<le> b\<close> excludes \<open>b < a\<close>. When \<open>|x1 - x0|\<close> exceeds \<open>step\<close>, \<open>rk2\<close> takes exactly
  \<open>N = ceil(|x1 - x0| / step)\<close> midpoint substeps of the equal size \<open>\<delta> = (x1 - x0) / N\<close>,
  the signed difference divided by the count. The test is the code's \<open>abs_delta > step\<close>.
  The one law of arithmetic used is that multiplying by \<open>0.5\<close> halves, as it does
  exactly in binary floating point.
\<close>

theorem rk2_substeps:
  fixes M :: "('a::{plus,minus,times,inverse,abs,ord}) fmath"
  assumes half: "\<forall>z. z * lit M 0.5 = z / lit M 2"
  shows "(\<not> \<bar>x1 - x0\<bar> > step \<longrightarrow>
            rk2 M fn x0 x1 y step = snd (midpoint_substep M fn (x1 - x0) (x0, y))) \<and>
         ((\<forall>a b :: 'a. a \<le> b \<longrightarrow> \<not> b < a) \<longrightarrow> \<bar>x1 - x0\<bar> \<le> step \<longrightarrow>
            rk2 M fn x0 x1 y step = snd (midpoint_substep M fn (x1 - x0) (x0, y))) \<and>
         (\<bar>x1 - x0\<bar> > step \<longrightarrow>
            (let N = to_size_t M (fceil M (\<bar>x1 - x0\<bar> / step));
                 \<delta> = (x1 - x0) / of_size_t M N
             in rk2 M fn x0 x1 y step = snd ((midpoint_substep M fn \<delta> ^^ N) (x0, y))))"
proof -
  have one: "rk2 M fn x0 x1 y step = snd (midpoint_substep M fn (x1 - x0) (x0, y))"
    if "\<not> \<bar>x1 - x0\<bar> > step"
    using that rk2_loop_funpow [OF half, of 0 1 fn "x1 - x0" x0 y]
    by (simp add: rk2_def Let_def)
  have many: "rk2 M fn x0 x1 y step =
      snd ((midpoint_substep M fn ((x1 - x0) / of_size_t M N) ^^ N) (x0, y))"
    if "\<bar>x1 - x0\<bar> > step" "N = to_size_t M (fceil M (\<bar>x1 - x0\<bar> / step))" for N
    using that rk2_loop_funpow [OF half, of 0 N fn _ x0 y]
    by (simp add: rk2_def Let_def)
  from one many show ?thesis unfolding Let_def by blast
qed

theorem rk2_substeps_witness:
  "(\<forall>z. z * lit exact 0.5 = z / lit exact 2) \<and>
   \<bar>Fin 1 - Fin 0\<bar> \<le> Fin 2 \<and>
   rk2 exact (\<lambda>x y. y) (Fin 0) (Fin 1) (Fin 1) (Fin 2) = Fin 2.5 \<and>
   \<bar>Fin 3 - Fin 0\<bar> > Fin 1 \<and>
   to_size_t exact (fceil exact (\<bar>Fin 3 - Fin 0\<bar> / Fin 1)) = 3 \<and>
   rk2 exact (\<lambda>x y. y) (Fin 0) (Fin 3) (Fin 1) (Fin 1) = Fin 15.625"
proof -
  have half: "\<forall>z. z * lit exact 0.5 = z / lit exact 2"
  proof
    fix z show "z * lit exact 0.5 = z / lit exact 2" by (cases z) simp_all
  qed
  have order: "\<forall>a b :: fval. a \<le> b \<longrightarrow> \<not> b < a"
  proof (intro allI impI)
    fix a b :: fval assume "a \<le> b"
    then show "\<not> b < a" by (cases a; cases b) simp_all
  qed
  have sub: "midpoint_substep exact (\<lambda>x y. y) (Fin d) (Fin x, Fin y) =
      (Fin (x + d), Fin (y + d * (y + d * y / 2)))" for d x y
    by (simp add: midpoint_substep_def Let_def)
  have le: "\<bar>Fin 1 - Fin 0\<bar> \<le> Fin 2" by simp
  from rk2_substeps [OF half, where ?x0.0 = "Fin 0" and ?x1.0 = "Fin 1" and step = "Fin 2"
      and fn = "\<lambda>x y. y" and y = "Fin 1"] order le
  have "rk2 exact (\<lambda>x y. y) (Fin 0) (Fin 1) (Fin 1) (Fin 2) =
      snd (midpoint_substep exact (\<lambda>x y. y) (Fin 1 - Fin 0) (Fin 0, Fin 1))"
    by blast
  then have one: "rk2 exact (\<lambda>x y. y) (Fin 0) (Fin 1) (Fin 1) (Fin 2) = Fin 2.5"
    by (simp add: sub)
  from rk2_substeps [OF half, where ?x0.0 = "Fin 0" and ?x1.0 = "Fin 3" and step = "Fin 1"
      and fn = "\<lambda>x y. y" and y = "Fin 1"]
  have three: "rk2 exact (\<lambda>x y. y) (Fin 0) (Fin 3) (Fin 1) (Fin 1) = Fin 15.625"
    by (simp add: numeral_3_eq_3 sub)
  from half one three show ?thesis by simp
qed

text \<open>The two copies of \<open>fixed_point\<close> compute the same value.\<close>

lemma libthermo_fixed_point_eq:
  "libthermo_fixed_point M (\<lambda>p x0 (x1, x2). fn p x0 x1 x2) max_iters eps x0 (x1, x2) =
     fixed_point M fn x0 x1 x2 eps max_iters"
  by (simp add: libthermo_fixed_point_def fixed_point_def)

section \<open>Properties of the formulas and the composite solvers\<close>

text \<open>
  Two evaluations of \<open>equivalent_potential_temperature\<close> in the exact instance, with
  dewpoint and temperature at \<open>T0\<close>, where the saturation vapor pressure is \<open>E0\<close>, and
  bounds on their values.
\<close>

lemma svp_exact_T0: "saturation_vapor_pressure exact (Fin 273.15) = Fin 611.21"
  by (simp add: saturation_vapor_pressure_def E0_def T0_def)

lemma ept_exact_cold:
  "equivalent_potential_temperature exact (Fin 10000611.21) (Fin 273.15) (Fin 273.15) =
     Fin (273.15 / 100 powr (Rd / Cpd) *
          exp (Rd / Rv * 611.21 / 10000000 * (1 + 0.448 * (Rd / Rv * 611.21 / 10000000)) *
               (3036 / 273.15 - 1.78)))"
  unfolding equivalent_potential_temperature_def saturation_mixing_ratio_def svp_exact_T0
    potential_temperature_def exner_function_def epsilon_def Let_def
  by (simp add: Rd_def Rv_def Cpd_def P0_def)

lemma ept_exact_warm:
  "equivalent_potential_temperature exact (Fin 100611.21) (Fin 273.15) (Fin 273.15) =
     Fin (273.15 *
          exp (Rd / Rv * 611.21 / 100000 * (1 + 0.448 * (Rd / Rv * 611.21 / 100000)) *
               (3036 / 273.15 - 1.78)))"
  unfolding equivalent_potential_temperature_def saturation_mixing_ratio_def svp_exact_T0
    potential_temperature_def exner_function_def epsilon_def Let_def
  by (simp add: Rd_def Rv_def Cpd_def P0_def)

lemma cold_bound:
  "273.15 / 100 powr (Rd / Cpd) *
     exp (Rd / Rv * 611.21 / 10000000 * (1 + 0.448 * (Rd / Rv * 611.21 / 10000000)) *
          (3036 / 273.15 - 1.78)) \<le> (173.15 :: real)"
proof -
  define c :: real where
    "c = Rd / Rv * 611.21 / 10000000 * (1 + 0.448 * (Rd / Rv * 611.21 / 10000000)) *
          (3036 / 273.15 - 1.78)"
  have c: "0 \<le> c" "c \<le> 1 / 1000" by (simp_all add: c_def Rd_def Rv_def)
  then have "exp c \<le> 1 + c + c\<^sup>2" by (intro exp_bound) simp_all
  also have "\<dots> \<le> 1 + 1 / 1000 + (1 / 1000)\<^sup>2"
    using c by (intro add_mono power_mono) simp_all
  also have "\<dots> \<le> 11 / 10" by (simp add: power2_eq_square)
  finally have e: "exp c \<le> 11 / 10" .
  have "(3::real) = (3 ^ 4) powr (1 / 4)"
    by (simp add: powr_powr flip: powr_numeral)
  also have "\<dots> \<le> 100 powr (1 / 4)"
    by (intro powr_mono2) simp_all
  also have "\<dots> \<le> 100 powr (Rd / Cpd)"
    by (intro powr_mono) (simp_all add: Rd_def Cpd_def)
  finally have p: "3 \<le> 100 powr (Rd / Cpd)" .
  then have "273.15 / 100 powr (Rd / Cpd) \<le> 273.15 / 3"
    by (intro divide_left_mono) simp_all
  with e have "273.15 / 100 powr (Rd / Cpd) * exp c \<le> 273.15 / 3 * (11 / 10)"
    by (intro mult_mono) simp_all
  also have "\<dots> \<le> (173.15 :: real)" by simp
  finally show ?thesis unfolding c_def .
qed

lemma warm_bound:
  "\<not> 273.15 *
     exp (Rd / Rv * 611.21 / 100000 * (1 + 0.448 * (Rd / Rv * 611.21 / 100000)) *
          (3036 / 273.15 - 1.78)) \<le> (173.15 :: real)"
proof -
  define c :: real where
    "c = Rd / Rv * 611.21 / 100000 * (1 + 0.448 * (Rd / Rv * 611.21 / 100000)) *
          (3036 / 273.15 - 1.78)"
  have "0 \<le> c" by (simp add: c_def Rd_def Rv_def)
  define E where "E = exp c"
  have "1 \<le> E" using \<open>0 \<le> c\<close> by (simp add: E_def)
  then have "\<not> 273.15 * E \<le> (173.15 :: real)" by simp
  then show ?thesis unfolding E_def c_def .
qed

text \<open>
  Claim C5. For every pressure, temperature and dewpoint,
  \<open>wet_bulb_potential_temperature\<close> computes \<open>\<theta>e\<close> with
  \<open>equivalent_potential_temperature\<close>; if \<open>\<theta>e \<le> 173.15\<close> the result is \<open>\<theta>e\<close> itself, and
  otherwise it is \<open>\<theta>e\<close> minus the exponential of a quotient of two polynomials of degree 4
  in \<open>x = \<theta>e / T0\<close>. The test is \<open>\<le>\<close> against the constant \<open>173.15\<close>, so \<open>\<theta>e = 173.15\<close>
  is still returned unchanged. In the exact instance both branches are taken: at
  \<open>T = Td = 273.15\<close> the pressure \<open>10000611.21\<close> gives \<open>\<theta>e\<close> below the threshold and
  \<open>100611.21\<close> gives \<open>\<theta>e\<close> above it.
\<close>

theorem wet_bulb_potential_temperature_threshold:
  "(let \<theta>e = equivalent_potential_temperature M pressure temperature dewpt;
        x = \<theta>e / lit M T0;
        a = lit M 7.101574 - lit M 20.68208 * x + lit M 16.11182 * (x * x)
              + lit M 2.574631 * (x * x * x) - lit M 5.205688 * (x * x * (x * x));
        b = lit M 1 - lit M 3.552497 * x + lit M 3.781782 * (x * x)
              - lit M 0.6899655 * (x * x * x) - lit M 0.5929340 * (x * x * (x * x))
    in (\<theta>e \<le> lit M 173.15 \<longrightarrow>
          wet_bulb_potential_temperature M pressure temperature dewpt = \<theta>e) \<and>
       (\<not> \<theta>e \<le> lit M 173.15 \<longrightarrow>
          wet_bulb_potential_temperature M pressure temperature dewpt = \<theta>e - fexp M (a / b)))"
  by (simp add: wet_bulb_potential_temperature_def Let_def)

theorem wet_bulb_potential_temperature_threshold_witness:
  "equivalent_potential_temperature exact (Fin 10000611.21) (Fin 273.15) (Fin 273.15)
     \<le> Fin 173.15 \<and>
   wet_bulb_potential_temperature exact (Fin 10000611.21) (Fin 273.15) (Fin 273.15) =
     equivalent_potential_temperature exact (Fin 10000611.21) (Fin 273.15) (Fin 273.15) \<and>
   \<not> equivalent_potential_temperature exact (Fin 100611.21) (Fin 273.15) (Fin 273.15)
     \<le> Fin 173.15 \<and>
   wet_bulb_potential_temperature exact (Fin 100611.21) (Fin 273.15) (Fin 273.15) \<noteq>
     equivalent_potential_temperature exact (Fin 100611.21) (Fin 273.15) (Fin 273.15)"
proof -
  let ?c = "equivalent_potential_temperature exact (Fin 10000611.21) (Fin 273.15) (Fin 273.15)"
  let ?w = "equivalent_potential_temperature exact (Fin 100611.21) (Fin 273.15) (Fin 273.15)"
  have c: "?c \<le> Fin 173.15"
    unfolding ept_exact_cold less_eq_fval.simps by (rule cold_bound)
  obtain w where w: "?w = Fin w" and nw: "\<not> Fin w \<le> Fin 173.15"
    using ept_exact_warm warm_bound less_eq_fval.simps(1) by blast
  have lit: "lit exact 173.15 = Fin 173.15" by (simp only: exact_simps)
  from wet_bulb_potential_temperature_threshold
    [of exact "Fin 10000611.21" "Fin 273.15" "Fin 273.15"] c
  have cold: "wet_bulb_potential_temperature exact (Fin 10000611.21) (Fin 273.15) (Fin 273.15)
      = ?c"
    unfolding Let_def lit by blast
  from wet_bulb_potential_temperature_threshold
    [of exact "Fin 100611.21" "Fin 273.15" "Fin 273.15"] nw
  obtain q where "wet_bulb_potential_temperature exact (Fin 100611.21) (Fin 273.15) (Fin 273.15)
      = Fin w - exp_fval q"
    unfolding Let_def lit w exact_simps by blast
  then have warm: "wet_bulb_potential_temperature exact (Fin 100611.21) (Fin 273.15) (Fin 273.15)
      \<noteq> Fin w"
    by (cases q) simp_all
  from c cold nw warm show ?thesis unfolding w by blast
qed

text \<open>
  Claim C6. For every trial pressure and all fixed arguments, \<open>lcl_solver\<close> returns the
  trial pressure unchanged when the rescaled pressure, reference pressure times
  (trial dewpoint / temperature) to the power \<open>1 / (Rd / Cpd)\<close> (that is \<open>Cpd / Rd\<close>), is
  NaN, and returns the rescaled pressure when it is not. In the exact instance a negative
  trial pressure makes the logarithm in \<open>dewpoint\<close> NaN and comes back unchanged.
\<close>

theorem lcl_solver_nan_fallback:
  "(isnan M (reference_pressure *
       fpow M (dewpoint2 M pressure r / temperature) (lit M 1.0 / (lit M Rd / lit M Cpd))) \<longrightarrow>
      lcl_solver M pressure reference_pressure temperature r = pressure) \<and>
   (\<not> isnan M (reference_pressure *
       fpow M (dewpoint2 M pressure r / temperature) (lit M 1.0 / (lit M Rd / lit M Cpd))) \<longrightarrow>
      lcl_solver M pressure reference_pressure temperature r =
        reference_pressure *
          fpow M (dewpoint2 M pressure r / temperature) (lit M 1.0 / (lit M Rd / lit M Cpd)))"
  by (simp add: lcl_solver_def Let_def)

lemma dewpoint2_exact_at_E0:
  "dewpoint2 exact (Fin 1222.42) (epsilon exact) = Fin 273.15"
  by (simp add: dewpoint2_def dewpoint_def vapor_pressure_def epsilon_def Let_def
      Rd_def Rv_def E0_def T0_def)

lemma dewpoint2_exact_negative:
  "dewpoint2 exact (Fin (- 1222.42)) (epsilon exact) = NaN"
  by (simp add: dewpoint2_def dewpoint_def vapor_pressure_def epsilon_def Let_def
      Rd_def Rv_def E0_def T0_def)

theorem lcl_solver_nan_fallback_witness:
  "lcl_solver exact (Fin (- 1222.42)) (Fin 100000) (Fin 273.15) (epsilon exact) = Fin (- 1222.42) \<and>
   lcl_solver exact (Fin 1222.42) (Fin 100000) (Fin 273.15) (epsilon exact) = Fin 100000"
proof
  show "lcl_solver exact (Fin (- 1222.42)) (Fin 100000) (Fin 273.15) (epsilon exact)
          = Fin (- 1222.42)"
    using lcl_solver_nan_fallback [of exact "Fin 100000" "Fin (- 1222.42)" "epsilon exact"
        "Fin 273.15"]
    unfolding dewpoint2_exact_negative by (simp add: Rd_def Cpd_def)
  show "lcl_solver exact (Fin 1222.42) (Fin 100000) (Fin 273.15) (epsilon exact) = Fin 100000"
    using lcl_solver_nan_fallback [of exact "Fin 100000" "Fin 1222.42" "epsilon exact"
        "Fin 273.15"]
    unfolding dewpoint2_exact_at_E0 by (simp add: Rd_def Cpd_def)
qed

text \<open>
  Claim C8. For every temperature \<open>T\<close>, \<open>potential_temperature(100000.0, T)\<close> is \<open>T\<close>,
  because the Exner function is 1 at the reference pressure. Three facts of the
  arithmetic are used, each exact in IEEE arithmetic: \<open>P0 / P0 = 1\<close>, \<open>pow(1, y) = 1\<close>
  for every \<open>y\<close>, and \<open>T / 1 = T\<close>.
\<close>

theorem potential_temperature_at_reference_pressure:
  assumes "lit M P0 / lit M P0 = lit M 1" and "\<forall>y. fpow M (lit M 1) y = lit M 1"
    and "T / lit M 1 = T"
  shows "exner_function M (lit M 100000.0) (lit M P0) = lit M 1 \<and>
         potential_temperature M (lit M 100000.0) T = T"
  using assms by (simp add: potential_temperature_def exner_function_def P0_def)

theorem potential_temperature_at_reference_pressure_witness:
  "potential_temperature exact (lit exact 100000.0) (Fin 300) = Fin 300 \<and>
   potential_temperature exact (lit exact 100000.0) NaN = NaN"
proof -
  have pow: "\<forall>y. fpow exact (lit exact 1) y = lit exact 1"
  proof
    fix y show "fpow exact (lit exact 1) y = lit exact 1" by (cases y) simp_all
  qed
  have "lit exact P0 / lit exact P0 = lit exact 1" by (simp add: P0_def)
  from potential_temperature_at_reference_pressure [OF this pow, of "Fin 300"]
    potential_temperature_at_reference_pressure [OF this pow, of NaN]
  show ?thesis by simp
qed

text \<open>
  Claim C9. The elementwise kernels \<open>wet_bulb_temperature\<close>, \<open>lcl_pressure\<close> and \<open>lcl\<close> call
  the library with \<open>eps = 0.1\<close>, \<open>step = 1000.0\<close> and \<open>max_iter = 50\<close>, and these are the
  values that reach the solvers: \<open>fixed_point\<close> runs with \<open>eps = 0.1\<close> and at most 50
  passes, \<open>rk2\<close> with the step 1000.
\<close>

theorem ufunc_defaults:
  "ufunc_wet_bulb_temperature M pressure temperature dewpt =
     wet_bulb_temperature M pressure temperature dewpt (lit M 0.1) (lit M 1000.0) 50 \<and>
   ufunc_wet_bulb_temperature M pressure temperature dewpt =
     (let r = mixing_ratio M (saturation_vapor_pressure M dewpt) pressure;
          lcl_p = fixed_point M (lcl_solver M) pressure temperature r (lit M 0.1) 50;
          lcl_t = dewpoint2 M lcl_p r
      in rk2 M (moist_lapse_solver M) lcl_p pressure lcl_t (lit M 1000.0)) \<and>
   ufunc_lcl_pressure M pressure temperature dewpt =
     lcl_pressure M pressure temperature dewpt (lit M 0.1) 50 \<and>
   ufunc_lcl_pressure M pressure temperature dewpt =
     fixed_point M (lcl_solver M) pressure temperature
       (mixing_ratio M (saturation_vapor_pressure M dewpt) pressure) (lit M 0.1) 50 \<and>
   ufunc_lcl M pressure temperature dewpt =
     lcl M pressure temperature dewpt (lit M 0.1) 50 \<and>
   ufunc_lcl M pressure temperature dewpt =
     (let r = mixing_ratio M (saturation_vapor_pressure M dewpt) pressure;
          lcl_p = fixed_point M (lcl_solver M) pressure temperature r (lit M 0.1) 50
      in (lcl_p, dewpoint2 M lcl_p r))"
  by (simp add: ufunc_wet_bulb_temperature_def ufunc_lcl_pressure_def ufunc_lcl_def
      wet_bulb_temperature_def lcl_def lcl_pressure_def moist_lapse_def Let_def)

section \<open>The round trip through \<open>saturation_vapor_pressure\<close> and \<open>dewpoint\<close>\<close>

text \<open>
  In exact arithmetic \<open>dewpoint\<close> inverts \<open>saturation_vapor_pressure\<close> at every
  temperature but the pole \<open>29.65\<close> of the exponent.
\<close>

lemma dewpoint_saturation_vapor_pressure_exact:
  assumes "T \<noteq> 29.65"
  shows "dewpoint exact (saturation_vapor_pressure exact (Fin T)) = Fin T"
proof -
  define u where "u = 17.67 * (T - 273.15) / (T - 29.65)"
  have d: "T - 29.65 \<noteq> 0" using assms by simp
  have u: "17.67 - u = 17.67 * 243.5 / (T - 29.65)"
    using d by (simp add: u_def field_simps)
  then have nz: "17.67 - u \<noteq> 0" using d by simp
  have "273.15 + 243.5 * u / (17.67 - u) = T"
    unfolding u using d by (simp add: u_def field_simps)
  with nz d show ?thesis
    by (simp add: dewpoint_def saturation_vapor_pressure_def Let_def E0_def T0_def u_def)
qed

subsection \<open>Propagation of rounding errors\<close>


























end
